theory Spec2Isabelle
  imports Main "HOL-Library.AList"
begin

section \<open>Data model\<close>

text \<open>
  The scheduler's claim tracker (\<^verbatim>\<open>pkg/scheduler/framework/runtime/dra_manager.go\<close>)
  combines an assume cache of claim objects with a ledger of in-flight allocations.
  The tracker replaces whole objects and never writes through a claim pointer, so a
  \<^verbatim>\<open>*resourceapi.ResourceClaim\<close> that is not nil is modelled by the claim it points to, and
  one that may be nil by an optional claim, with \<^const>\<open>None\<close> for nil. Only the
  fields the tracker and its cache read are kept.
\<close>

type_synonym UID = string

text \<open>
  Modelled from the spec: the API types \<^verbatim>\<open>ResourceClaim\<close>, \<^verbatim>\<open>ResourceClaimStatus\<close> and
  \<^verbatim>\<open>AllocationResult\<close> of \<^verbatim>\<open>k8s.io/api/resource/v1alpha3\<close>. A claim has a namespace and a
  name, a UID, an optional allocation record and a list of consumers reserving it.
  The tracker only tests whether the allocation pointer is nil.
\<close>

datatype AllocationResult = AllocationResult (Devices: "string list")

record ResourceClaimStatus =
  Allocation :: "AllocationResult option"
  ReservedFor :: "string list"

record ResourceClaim =
  Namespace :: string
  Name :: string
  UID :: UID
  Status :: ResourceClaimStatus

text \<open>
  The cache holds values of the empty interface. A cached object is either a claim or an
  object of another dynamic type, of which the model keeps the type's name (what \<^verbatim>\<open>%T\<close>
  prints) and the object's \<^verbatim>\<open>namespace/name\<close> key. The objects of the cache come from the
  informer and from \<^verbatim>\<open>Assume\<close>, which reads the name of its object: none is a nil pointer.
\<close>

datatype obj = ClaimObj ResourceClaim | OtherObj string string

text \<open>
  The \<^verbatim>\<open>sync.Map\<close> holds values of the empty interface too. The tracker stores the claim
  pointer it is given without a check, so a stored value is a \<^verbatim>\<open>*resourceapi.ResourceClaim\<close>,
  nil or not, or a value of another dynamic type, of which the model keeps the type's name.
\<close>

datatype ledgerObj = ClaimPtr "ResourceClaim option" | OtherValue string

text \<open>
  The errors the cache and the getters return, and the two panics of \<^verbatim>\<open>ListAllAllocated\<close>:
  a failed type assertion and a nil pointer dereference.
\<close>

datatype error =
    NotFound string
  | OutOfSync string
  | UnexpectedType string string string
  | PanicInterfaceConversion string
  | PanicNilDereference

section \<open>The assume cache\<close>

text \<open>
  Modelled from the spec: the package \<^verbatim>\<open>pkg/scheduler/util/assumecache\<close>. The cache is
  string-keyed and holds, for each key, an authoritative version and optionally an
  assumed version; the ordering that validates an assumed version is supplied to the
  cache. The entries are kept as an association list read with \<^const>\<open>map_of\<close>; the order
  in which \<^verbatim>\<open>List\<close> returns them is not part of its contract.
\<close>

record objInfo =
  authoritative :: obj
  assumed :: "obj option"

record AssumeCache =
  entries :: "(string \<times> objInfo) list"
  newer :: "obj \<Rightarrow> obj \<Rightarrow> bool"

text \<open>The best-known version of an entry: assumed if present, else authoritative.\<close>

definition latestObj :: "objInfo \<Rightarrow> obj" where
  "latestObj i = (case assumed i of Some a \<Rightarrow> a | None \<Rightarrow> authoritative i)"

text \<open>The key of an object, \<^verbatim>\<open><namespace>/<name>\<close> for a claim.\<close>

fun objKey :: "obj \<Rightarrow> string" where
  "objKey (ClaimObj c) = Namespace c @ ''/'' @ Name c"
| "objKey (OtherObj kind key) = key"

text \<open>Modelled from the spec: \<^verbatim>\<open>Get(key)\<close>, assumed-or-authoritative; not found when the key is absent.\<close>

definition AssumeCache_Get :: "AssumeCache \<Rightarrow> string \<Rightarrow> error + obj" where
  "AssumeCache_Get c key =
     (case map_of (entries c) key of
        None \<Rightarrow> Inl (NotFound key)
      | Some i \<Rightarrow> Inr (latestObj i))"

text \<open>Modelled from the spec: \<^verbatim>\<open>GetAPIObj(key)\<close>, authoritative only.\<close>

definition AssumeCache_GetAPIObj :: "AssumeCache \<Rightarrow> string \<Rightarrow> error + obj" where
  "AssumeCache_GetAPIObj c key =
     (case map_of (entries c) key of
        None \<Rightarrow> Inl (NotFound key)
      | Some i \<Rightarrow> Inr (authoritative i))"

text \<open>
  Modelled from the spec: \<^verbatim>\<open>List(selector)\<close>, all cached objects (assumed-or-authoritative
  per key), optionally filtered. The tracker passes \<^verbatim>\<open>nil\<close>, here \<^const>\<open>None\<close>.
\<close>

definition AssumeCache_List :: "AssumeCache \<Rightarrow> (obj \<Rightarrow> bool) option \<Rightarrow> obj list" where
  "AssumeCache_List c selector =
     (let objs = map (\<lambda>(key, i). latestObj i) (entries c)
      in case selector of None \<Rightarrow> objs | Some sel \<Rightarrow> filter sel objs)"

text \<open>
  Modelled from the spec: \<^verbatim>\<open>Assume(object)\<close> inserts the object as the assumed version of
  its key when the supplied ordering accepts it as newer than what the cache holds for
  that key, and fails, leaving the cache as it is, otherwise.
\<close>

definition AssumeCache_Assume :: "AssumeCache \<Rightarrow> obj \<Rightarrow> error + AssumeCache" where
  "AssumeCache_Assume c x =
     (let key = objKey x in
      case map_of (entries c) key of
        None \<Rightarrow> Inl (NotFound key)
      | Some i \<Rightarrow>
          if newer c x (latestObj i)
          then Inr (c\<lparr>entries := AList.update key (i\<lparr>assumed := Some x\<rparr>) (entries c)\<rparr>)
          else Inl (OutOfSync key))"

text \<open>
  Modelled from the spec: \<^verbatim>\<open>Restore(key)\<close> discards the assumed version of the key; a
  no-op when there is none.
\<close>

definition AssumeCache_Restore :: "AssumeCache \<Rightarrow> string \<Rightarrow> AssumeCache" where
  "AssumeCache_Restore c key =
     (case map_of (entries c) key of
        None \<Rightarrow> c
      | Some i \<Rightarrow> c\<lparr>entries := AList.update key (i\<lparr>assumed := None\<rparr>) (entries c)\<rparr>)"

section \<open>The claim tracker\<close>

text \<open>
  \<^verbatim>\<open>type claimTracker struct { cache *assumecache.AssumeCache; inFlightAllocations *sync.Map }\<close>.
  The \<^verbatim>\<open>sync.Map\<close> maps claim UIDs to values of the empty interface.
\<close>

record claimTracker =
  cache :: AssumeCache
  inFlightAllocations :: "UID \<rightharpoonup> ledgerObj"

text \<open>\<^verbatim>\<open>NewDraManager\<close> builds the tracker from a claims cache and an empty \<^verbatim>\<open>sync.Map\<close>.\<close>

definition NewClaimTracker :: "AssumeCache \<Rightarrow> claimTracker" where
  "NewClaimTracker claimsCache = \<lparr>cache = claimsCache, inFlightAllocations = Map.empty\<rparr>"

definition ClaimHasPendingAllocation :: "claimTracker \<Rightarrow> UID \<Rightarrow> bool" where
  "ClaimHasPendingAllocation c claimUid =
     (case inFlightAllocations c claimUid of None \<Rightarrow> False | Some _ \<Rightarrow> True)"

text \<open>
  \<^verbatim>\<open>SignalClaimPendingAllocation\<close> stores the pointer it is given, nil included, under the
  UID it is given.
\<close>

definition SignalClaimPendingAllocation ::
  "claimTracker \<Rightarrow> UID \<Rightarrow> ResourceClaim option \<Rightarrow> claimTracker" where
  "SignalClaimPendingAllocation c claimUid allocatedClaim =
     c\<lparr>inFlightAllocations := (inFlightAllocations c)(claimUid \<mapsto> ClaimPtr allocatedClaim)\<rparr>"

text \<open>\<^verbatim>\<open>LoadAndDelete\<close>: the result is whether the key was loaded, and the entry is gone.\<close>

definition RemoveClaimPendingAllocation :: "claimTracker \<Rightarrow> UID \<Rightarrow> bool \<times> claimTracker" where
  "RemoveClaimPendingAllocation c claimUid =
     (case inFlightAllocations c claimUid of
        None \<Rightarrow> (False, c)
      | Some _ \<Rightarrow> (True, c\<lparr>inFlightAllocations := (inFlightAllocations c)(claimUid := None)\<rparr>))"

text \<open>The checked type assertion \<^verbatim>\<open>claim, ok := obj.(*resourceapi.ResourceClaim)\<close> of the getters.\<close>

definition assertClaim :: "obj \<Rightarrow> string \<Rightarrow> string \<Rightarrow> error + ResourceClaim" where
  "assertClaim x namespace claimName =
     (case x of
        ClaimObj claim \<Rightarrow> Inr claim
      | OtherObj kind key \<Rightarrow> Inl (UnexpectedType kind namespace claimName))"

definition claimTracker_Get :: "claimTracker \<Rightarrow> string \<Rightarrow> string \<Rightarrow> error + ResourceClaim" where
  "claimTracker_Get c namespace claimName =
     (case AssumeCache_Get (cache c) (namespace @ ''/'' @ claimName) of
        Inl err \<Rightarrow> Inl err
      | Inr x \<Rightarrow> assertClaim x namespace claimName)"

definition claimTracker_GetOriginal :: "claimTracker \<Rightarrow> string \<Rightarrow> string \<Rightarrow> error + ResourceClaim" where
  "claimTracker_GetOriginal c namespace claimName =
     (case AssumeCache_GetAPIObj (cache c) (namespace @ ''/'' @ claimName) of
        Inl err \<Rightarrow> Inl err
      | Inr x \<Rightarrow> assertClaim x namespace claimName)"

text \<open>The loop of \<^verbatim>\<open>List\<close>: an object that is not a claim is skipped.\<close>

fun List_loop :: "obj list \<Rightarrow> ResourceClaim list \<Rightarrow> ResourceClaim list" where
  "List_loop [] result = result"
| "List_loop (ClaimObj claim # objs) result = List_loop objs (result @ [claim])"
| "List_loop (OtherObj kind key # objs) result = List_loop objs result"

definition claimTracker_List :: "claimTracker \<Rightarrow> error + ResourceClaim list" where
  "claimTracker_List c = Inr (List_loop (AssumeCache_List (cache c) None) [])"

text \<open>
  The loop of \<^verbatim>\<open>ListAllAllocated\<close>. The ledger is read by the UID of the cached claim; the
  unchecked assertion \<^verbatim>\<open>obj.(*resourceapi.ResourceClaim)\<close> panics on a value of another type
  and lets a nil claim pointer through, on which \<^verbatim>\<open>claim.Status.Allocation\<close> panics.
\<close>

fun ListAllAllocated_loop ::
  "(UID \<rightharpoonup> ledgerObj) \<Rightarrow> ResourceClaim list \<Rightarrow> ResourceClaim list \<Rightarrow>
     error + ResourceClaim list" where
  "ListAllAllocated_loop m [] allocated = Inr allocated"
| "ListAllAllocated_loop m (origClaim # claims) allocated =
     (case m (UID origClaim) of
        None \<Rightarrow>
          if Allocation (Status origClaim) \<noteq> None
          then ListAllAllocated_loop m claims (allocated @ [origClaim])
          else ListAllAllocated_loop m claims allocated
      | Some (OtherValue kind) \<Rightarrow> Inl (PanicInterfaceConversion kind)
      | Some (ClaimPtr None) \<Rightarrow> Inl PanicNilDereference
      | Some (ClaimPtr (Some claim)) \<Rightarrow>
          if Allocation (Status claim) \<noteq> None
          then ListAllAllocated_loop m claims (allocated @ [claim])
          else ListAllAllocated_loop m claims allocated)"

definition ListAllAllocated :: "claimTracker \<Rightarrow> error + ResourceClaim list" where
  "ListAllAllocated c =
     (case claimTracker_List c of
        Inl err \<Rightarrow> Inl err
      | Inr claims \<Rightarrow> ListAllAllocated_loop (inFlightAllocations c) claims [])"

definition AssumeClaimAfterApiCall :: "claimTracker \<Rightarrow> ResourceClaim \<Rightarrow> error + claimTracker" where
  "AssumeClaimAfterApiCall c claim =
     (case AssumeCache_Assume (cache c) (ClaimObj claim) of
        Inl err \<Rightarrow> Inl err
      | Inr cache' \<Rightarrow> Inr (c\<lparr>cache := cache'\<rparr>))"

definition AssumedClaimRestore :: "claimTracker \<Rightarrow> string \<Rightarrow> string \<Rightarrow> claimTracker" where
  "AssumedClaimRestore c namespace claimName =
     c\<lparr>cache := AssumeCache_Restore (cache c) (namespace @ ''/'' @ claimName)\<rparr>"

section \<open>The claims cache of the plugin\<close>

text \<open>
  \<^verbatim>\<open>plugins/dynamicresources/claims.go\<close>: \<^verbatim>\<open>type ClaimsAssumeCache struct { cache *assumecache.AssumeCache }\<close>,
  with the same getters and list as the tracker.
\<close>

datatype ClaimsAssumeCache = ClaimsAssumeCache (assumeCache: AssumeCache)

definition ClaimsAssumeCache_Get :: "ClaimsAssumeCache \<Rightarrow> string \<Rightarrow> string \<Rightarrow> error + ResourceClaim" where
  "ClaimsAssumeCache_Get c namespace claimName =
     (case AssumeCache_Get (assumeCache c) (namespace @ ''/'' @ claimName) of
        Inl err \<Rightarrow> Inl err
      | Inr x \<Rightarrow> assertClaim x namespace claimName)"

definition ClaimsAssumeCache_GetOriginal :: "ClaimsAssumeCache \<Rightarrow> string \<Rightarrow> string \<Rightarrow> error + ResourceClaim" where
  "ClaimsAssumeCache_GetOriginal c namespace claimName =
     (case AssumeCache_GetAPIObj (assumeCache c) (namespace @ ''/'' @ claimName) of
        Inl err \<Rightarrow> Inl err
      | Inr x \<Rightarrow> assertClaim x namespace claimName)"

definition ClaimsAssumeCache_List :: "ClaimsAssumeCache \<Rightarrow> error + ResourceClaim list" where
  "ClaimsAssumeCache_List c = Inr (List_loop (AssumeCache_List (assumeCache c) None) [])"

definition ClaimsAssumeCache_Assume :: "ClaimsAssumeCache \<Rightarrow> ResourceClaim \<Rightarrow> error + ClaimsAssumeCache" where
  "ClaimsAssumeCache_Assume c claim =
     (case AssumeCache_Assume (assumeCache c) (ClaimObj claim) of
        Inl err \<Rightarrow> Inl err
      | Inr cache' \<Rightarrow> Inr (ClaimsAssumeCache cache'))"

definition ClaimsAssumeCache_Restore :: "ClaimsAssumeCache \<Rightarrow> string \<Rightarrow> string \<Rightarrow> ClaimsAssumeCache" where
  "ClaimsAssumeCache_Restore c namespace claimName =
     ClaimsAssumeCache (AssumeCache_Restore (assumeCache c) (namespace @ ''/'' @ claimName))"

section \<open>States of the tracker\<close>

definition isClaim :: "obj \<Rightarrow> bool" where
  "isClaim x = (case x of ClaimObj claim \<Rightarrow> True | OtherObj kind key \<Rightarrow> False)"

text \<open>A stored value whose dynamic type is \<^verbatim>\<open>*resourceapi.ResourceClaim\<close>, nil or not.\<close>

definition isClaimPtr :: "ledgerObj \<Rightarrow> bool" where
  "isClaimPtr x = (case x of ClaimPtr p \<Rightarrow> True | OtherValue kind \<Rightarrow> False)"

text \<open>A stored value that is a pointer to a claim, not nil.\<close>

definition isStoredClaim :: "ledgerObj \<Rightarrow> bool" where
  "isStoredClaim x =
     (case x of ClaimPtr None \<Rightarrow> False | ClaimPtr (Some claim) \<Rightarrow> True | OtherValue kind \<Rightarrow> False)"

text \<open>Every value stored in the in-flight ledger is a claim pointer, nil or not.\<close>

definition ledger_typed :: "claimTracker \<Rightarrow> bool" where
  "ledger_typed c = (\<forall>x \<in> ran (inFlightAllocations c). isClaimPtr x)"

text \<open>Every value stored in the in-flight ledger is a claim: a claim pointer that is not nil.\<close>

definition ledger_claims :: "claimTracker \<Rightarrow> bool" where
  "ledger_claims c = (\<forall>x \<in> ran (inFlightAllocations c). isStoredClaim x)"

text \<open>
  The states a tracker goes through: it is built by \<^verbatim>\<open>NewDraManager\<close>, and then changed by
  its own operations, while the informer (the other holder of the cache pointer) may
  replace the content of the cache at any time. The reading operations change nothing.
  \<^verbatim>\<open>SignalClaimPendingAllocation\<close> may be given any pointer, nil included.
\<close>

inductive reachable :: "claimTracker \<Rightarrow> bool" where
  reach_new: "reachable (NewClaimTracker claimsCache)"
| reach_signal: "reachable c \<Longrightarrow> reachable (SignalClaimPendingAllocation c claimUid allocatedClaim)"
| reach_remove: "reachable c \<Longrightarrow> reachable (snd (RemoveClaimPendingAllocation c claimUid))"
| reach_assume: "reachable c \<Longrightarrow> AssumeClaimAfterApiCall c claim = Inr c' \<Longrightarrow> reachable c'"
| reach_restore: "reachable c \<Longrightarrow> reachable (AssumedClaimRestore c namespace claimName)"
| reach_informer: "reachable c \<Longrightarrow> reachable (c\<lparr>cache := cache'\<rparr>)"

text \<open>The states a tracker goes through when no caller signals a nil claim.\<close>

inductive reachable_nonnil :: "claimTracker \<Rightarrow> bool" where
  nonnil_new: "reachable_nonnil (NewClaimTracker claimsCache)"
| nonnil_signal:
    "reachable_nonnil c \<Longrightarrow>
       reachable_nonnil (SignalClaimPendingAllocation c claimUid (Some allocatedClaim))"
| nonnil_remove:
    "reachable_nonnil c \<Longrightarrow> reachable_nonnil (snd (RemoveClaimPendingAllocation c claimUid))"
| nonnil_assume:
    "reachable_nonnil c \<Longrightarrow> AssumeClaimAfterApiCall c claim = Inr c' \<Longrightarrow> reachable_nonnil c'"
| nonnil_restore:
    "reachable_nonnil c \<Longrightarrow> reachable_nonnil (AssumedClaimRestore c namespace claimName)"
| nonnil_informer: "reachable_nonnil c \<Longrightarrow> reachable_nonnil (c\<lparr>cache := cache'\<rparr>)"

section \<open>ListAllAllocated as the specification words it\<close>

text \<open>
  The specification's wording of \<^verbatim>\<open>ListAllAllocated\<close>, to be compared with the loop: for each
  listed claim the ledger's claim for its UID, when there is one, replaces it; the claims
  with an allocation record are kept.
\<close>

definition spec_effective :: "(UID \<rightharpoonup> ledgerObj) \<Rightarrow> ResourceClaim \<Rightarrow> ResourceClaim" where
  "spec_effective m claim =
     (case m (UID claim) of Some (ClaimPtr (Some l)) \<Rightarrow> l | _ \<Rightarrow> claim)"

definition spec_ListAllAllocated ::
  "(UID \<rightharpoonup> ledgerObj) \<Rightarrow> ResourceClaim list \<Rightarrow> ResourceClaim list" where
  "spec_ListAllAllocated m listed =
     filter (\<lambda>claim. Allocation (Status claim) \<noteq> None) (map (spec_effective m) listed)"

section \<open>Example states\<close>

text \<open>
  Claim \<open>X\<close> of the specification's scenario, without an allocation, and \<open>X'\<close>, the same
  claim with one.
\<close>

definition claimX :: ResourceClaim where
  "claimX = \<lparr>Namespace = ''default'', Name = ''x'', UID = ''u1'',
     Status = \<lparr>Allocation = None, ReservedFor = []\<rparr>\<rparr>"

definition claimX' :: ResourceClaim where
  "claimX' = \<lparr>Namespace = ''default'', Name = ''x'', UID = ''u1'',
     Status = \<lparr>Allocation = Some (AllocationResult [''gpu-0'']), ReservedFor = []\<rparr>\<rparr>"

text \<open>An earlier claim of the same namespace and name, deleted since, with another UID.\<close>

definition claimOld :: ResourceClaim where
  "claimOld = \<lparr>Namespace = ''default'', Name = ''x'', UID = ''u0'',
     Status = \<lparr>Allocation = None, ReservedFor = []\<rparr>\<rparr>"

text \<open>An ordering for the examples: a claim with an allocation is newer than one without.\<close>

definition allocatedIsNewer :: "obj \<Rightarrow> obj \<Rightarrow> bool" where
  "allocatedIsNewer new old =
     (case (new, old) of
        (ClaimObj b, ClaimObj a) \<Rightarrow> Allocation (Status b) \<noteq> None \<and> Allocation (Status a) = None
      | _ \<Rightarrow> False)"

definition emptyCache :: AssumeCache where
  "emptyCache = \<lparr>entries = [], newer = allocatedIsNewer\<rparr>"

definition cacheX :: AssumeCache where
  "cacheX = \<lparr>entries = [(''default/x'', \<lparr>authoritative = ClaimObj claimX, assumed = None\<rparr>),
                        (''kube-system/p'', \<lparr>authoritative = OtherObj ''*v1.Pod'' ''kube-system/p'', assumed = None\<rparr>)],
             newer = allocatedIsNewer\<rparr>"

definition cacheOld :: AssumeCache where
  "cacheOld = \<lparr>entries = [(''default/x'', \<lparr>authoritative = ClaimObj claimOld, assumed = None\<rparr>)],
               newer = allocatedIsNewer\<rparr>"

text \<open>The cache \<open>cacheX\<close> once \<open>X'\<close> has been assumed.\<close>

definition cacheAssumedX :: AssumeCache where
  "cacheAssumedX =
     \<lparr>entries = [(''default/x'', \<lparr>authoritative = ClaimObj claimX, assumed = Some (ClaimObj claimX')\<rparr>),
                 (''kube-system/p'', \<lparr>authoritative = OtherObj ''*v1.Pod'' ''kube-system/p'', assumed = None\<rparr>)],
      newer = allocatedIsNewer\<rparr>"

section \<open>The loops\<close>

lemma List_loop_acc: "List_loop objs result = result @ List_loop objs []"
proof (induction objs arbitrary: result)
  case Nil
  show ?case by simp
next
  case (Cons x objs)
  show ?case
  proof (cases x)
    case (ClaimObj claim)
    have "List_loop (x # objs) result = (result @ [claim]) @ List_loop objs []"
      unfolding ClaimObj List_loop.simps by (rule Cons.IH)
    moreover have "List_loop (x # objs) [] = [claim] @ List_loop objs []"
      unfolding ClaimObj List_loop.simps append_Nil by (rule Cons.IH)
    ultimately show ?thesis by simp
  next
    case (OtherObj kind key)
    then show ?thesis using Cons.IH [of result] by simp
  qed
qed

lemma List_loop_filter: "map ClaimObj (List_loop objs []) = filter isClaim objs"
proof (induction objs)
  case Nil
  show ?case by simp
next
  case (Cons x objs)
  show ?case
  proof (cases x)
    case (ClaimObj claim)
    have "List_loop (x # objs) [] = claim # List_loop objs []"
      using List_loop_acc [of objs "[claim]"] by (simp add: ClaimObj)
    then show ?thesis using Cons by (simp add: ClaimObj isClaim_def)
  next
    case (OtherObj kind key)
    then show ?thesis using Cons by (simp add: isClaim_def)
  qed
qed

lemma set_List_loop: "set (List_loop objs []) = {claim. ClaimObj claim \<in> set objs}"
proof -
  have "ClaimObj ` set (List_loop objs []) = {x \<in> set objs. isClaim x}"
    using List_loop_filter [of objs] by (metis set_filter set_map)
  then show ?thesis
    by (auto simp: isClaim_def image_iff set_eq_iff split: obj.splits)
qed


lemma List_Signal:
  "claimTracker_List (SignalClaimPendingAllocation c u claim) = claimTracker_List c"
  by (simp add: claimTracker_List_def SignalClaimPendingAllocation_def)

text \<open>With claims only in the ledger, the loop of \<^verbatim>\<open>ListAllAllocated\<close> is the map and filter.\<close>

lemma loop_spec:
  "\<forall>x \<in> ran m. isStoredClaim x \<Longrightarrow>
   ListAllAllocated_loop m claims allocated = Inr (allocated @ spec_ListAllAllocated m claims)"
proof (induction claims arbitrary: allocated)
  case Nil
  then show ?case by (simp add: spec_ListAllAllocated_def)
next
  case (Cons origClaim claims)
  note IH = Cons.IH [OF Cons.prems]
  show ?case
  proof (cases "m (UID origClaim)")
    case None
    then show ?thesis
      by (simp add: IH spec_ListAllAllocated_def spec_effective_def)
  next
    case (Some x)
    then have "isStoredClaim x" using Cons.prems by (auto simp: ran_def)
    then obtain l where "x = ClaimPtr (Some l)"
      by (cases x) (auto simp: isStoredClaim_def split: option.splits)
    then show ?thesis using Some
      by (simp add: IH spec_ListAllAllocated_def spec_effective_def)
  qed
qed

lemma ListAllAllocated_spec:
  assumes "ledger_claims c" "claimTracker_List c = Inr listed"
  shows "ListAllAllocated c = Inr (spec_ListAllAllocated (inFlightAllocations c) listed)"
  using assms loop_spec [of "inFlightAllocations c" listed "[]"]
  by (simp add: ListAllAllocated_def ledger_claims_def)

lemma spec_member:
  "claim \<in> set (spec_ListAllAllocated m listed) \<longleftrightarrow>
     Allocation (Status claim) \<noteq> None \<and> (\<exists>orig \<in> set listed. claim = spec_effective m orig)"
  by (auto simp: spec_ListAllAllocated_def)

lemma spec_effective_eq:
  "\<forall>x \<in> ran m. isStoredClaim x \<Longrightarrow>
   claim = spec_effective m orig \<longleftrightarrow>
     (m (UID orig) = None \<and> claim = orig \<or> m (UID orig) = Some (ClaimPtr (Some claim)))"
  by (auto simp: spec_effective_def isStoredClaim_def ran_def
      split: option.splits ledgerObj.splits)

text \<open>A ledger entry under a UID that no listed claim has is never read by the loop.\<close>

lemma loop_other_uid:
  "u \<notin> UID ` set claims \<Longrightarrow>
     ListAllAllocated_loop (m(u := x)) claims allocated = ListAllAllocated_loop m claims allocated"
proof (induction claims arbitrary: allocated)
  case Nil
  show ?case by simp
next
  case (Cons origClaim claims)
  then have ne: "UID origClaim \<noteq> u" and rest: "u \<notin> UID ` set claims" by auto
  note IH = Cons.IH [OF rest]
  have eq: "(m(u := x)) (UID origClaim) = m (UID origClaim)" using ne by simp
  show ?case by (simp only: ListAllAllocated_loop.simps eq IH)
qed

text \<open>Where a reported claim comes from, whatever the ledger holds.\<close>

lemma loop_origin:
  "ListAllAllocated_loop m claims allocated = Inr res \<Longrightarrow> claim \<in> set res \<Longrightarrow>
     claim \<in> set allocated \<or>
     (\<exists>orig \<in> set claims. Allocation (Status claim) \<noteq> None \<and>
        (m (UID orig) = None \<and> claim = orig \<or> m (UID orig) = Some (ClaimPtr (Some claim))))"
proof (induction claims arbitrary: allocated)
  case Nil
  then show ?case by simp
next
  case (Cons origClaim claims)
  show ?case
  proof (cases "m (UID origClaim)")
    case None
    show ?thesis
    proof (cases "Allocation (Status origClaim) = None")
      case True
      with None Cons.prems have "ListAllAllocated_loop m claims allocated = Inr res" by simp
      from Cons.IH [OF this Cons.prems(2)] show ?thesis by auto
    next
      case False
      with None Cons.prems have "ListAllAllocated_loop m claims (allocated @ [origClaim]) = Inr res"
        by simp
      from Cons.IH [OF this Cons.prems(2)] None False show ?thesis by auto
    qed
  next
    case (Some x)
    show ?thesis
    proof (cases x)
      case (ClaimPtr p)
      show ?thesis
      proof (cases p)
        case None
        with Some ClaimPtr Cons.prems show ?thesis by simp
      next
        case stored: (Some l)
        show ?thesis
        proof (cases "Allocation (Status l) = None")
          case True
          with Some ClaimPtr stored Cons.prems
          have "ListAllAllocated_loop m claims allocated = Inr res" by simp
          from Cons.IH [OF this Cons.prems(2)] show ?thesis by auto
        next
          case False
          with Some ClaimPtr stored Cons.prems
          have "ListAllAllocated_loop m claims (allocated @ [l]) = Inr res" by simp
          from Cons.IH [OF this Cons.prems(2)] Some ClaimPtr stored False show ?thesis by auto
        qed
      qed
    next
      case (OtherValue kind)
      with Some Cons.prems show ?thesis by simp
    qed
  qed
qed


section \<open>The ledger invariant\<close>

lemma ledger_claims_New: "ledger_claims (NewClaimTracker claimsCache)"
  by (simp add: ledger_claims_def NewClaimTracker_def)

lemma ledger_claims_Signal:
  "ledger_claims c \<Longrightarrow> ledger_claims (SignalClaimPendingAllocation c u (Some claim))"
  by (auto simp: ledger_claims_def SignalClaimPendingAllocation_def ran_def isStoredClaim_def
      split: if_splits)

lemma ledger_claims_typed: "ledger_claims c \<Longrightarrow> ledger_typed c"
  by (auto simp: ledger_claims_def ledger_typed_def isStoredClaim_def isClaimPtr_def
      split: ledgerObj.splits)




lemma ledger_claims_Remove:
  "ledger_claims c \<Longrightarrow> ledger_claims (snd (RemoveClaimPendingAllocation c u))"
  by (auto simp: ledger_claims_def RemoveClaimPendingAllocation_def ran_def
      split: option.splits if_splits)

lemma ledger_Assume:
  "AssumeClaimAfterApiCall c claim = Inr c' \<Longrightarrow> inFlightAllocations c' = inFlightAllocations c"
  by (auto simp: AssumeClaimAfterApiCall_def split: sum.splits)


text \<open>When no nil claim is signalled, the ledger holds claims only.\<close>

lemma reachable_nonnil_ledger_claims: "reachable_nonnil c \<Longrightarrow> ledger_claims c"
proof (induction rule: reachable_nonnil.induct)
  case (nonnil_new claimsCache)
  show ?case by (rule ledger_claims_New)
next
  case (nonnil_signal c claimUid allocatedClaim)
  then show ?case by (simp add: ledger_claims_Signal)
next
  case (nonnil_remove c claimUid)
  then show ?case by (simp add: ledger_claims_Remove)
next
  case (nonnil_assume c claim c')
  then show ?case using ledger_Assume [of c claim c'] by (simp add: ledger_claims_def)
next
  case (nonnil_restore c namespace claimName)
  then show ?case by (simp add: ledger_claims_def AssumedClaimRestore_def)
next
  case (nonnil_informer c cache')
  then show ?case by (simp add: ledger_claims_def)
qed

lemma reachable_nonnil_reachable: "reachable_nonnil c \<Longrightarrow> reachable c"
  by (induction rule: reachable_nonnil.induct) (auto intro: reachable.intros)

text \<open>A value of another type in the ledger would make the unchecked assertion panic.\<close>

lemma ListAllAllocated_panics_on_other_kind:
  "ListAllAllocated \<lparr>cache = cacheX, inFlightAllocations = [''u1'' \<mapsto> OtherValue ''*v1.Pod'']\<rparr>
    = Inl (PanicInterfaceConversion ''*v1.Pod'')"
  by (simp add: ListAllAllocated_def claimTracker_List_def cacheX_def AssumeCache_List_def
      latestObj_def claimX_def)


section \<open>The cache\<close>

lemma AssumeCache_List_None: "AssumeCache_List c None = map (latestObj \<circ> snd) (entries c)"
  by (simp add: AssumeCache_List_def case_prod_unfold comp_def)

lemma Get_in_List:
  "AssumeCache_Get c key = Inr x \<Longrightarrow> x \<in> set (AssumeCache_List c None)"
  by (auto simp: AssumeCache_Get_def AssumeCache_List_None split: option.splits
      dest!: map_of_SomeD intro!: image_eqI)

lemma List_in_Get:
  assumes "distinct (map fst (entries c))" "x \<in> set (AssumeCache_List c None)"
  shows "\<exists>key. AssumeCache_Get c key = Inr x"
proof -
  from assms(2) obtain key i where "(key, i) \<in> set (entries c)" "x = latestObj i"
    by (auto simp: AssumeCache_List_None)
  then have "AssumeCache_Get c key = Inr x"
    using assms(1) by (simp add: AssumeCache_Get_def)
  then show ?thesis ..
qed

text \<open>One entry per key: the operations of the cache keep it so.\<close>

lemma distinct_Assume:
  "AssumeCache_Assume c x = Inr c' \<Longrightarrow> distinct (map fst (entries c)) \<Longrightarrow>
     distinct (map fst (entries c'))"
  by (auto simp: AssumeCache_Assume_def Let_def distinct_update split: option.splits if_splits)

lemma distinct_Restore:
  "distinct (map fst (entries c)) \<Longrightarrow> distinct (map fst (entries (AssumeCache_Restore c key)))"
  by (auto simp: AssumeCache_Restore_def distinct_update split: option.splits)

lemma map_of_Assume:
  "AssumeCache_Assume c x = Inr c' \<Longrightarrow>
     \<exists>i. map_of (entries c) (objKey x) = Some i \<and> newer c x (latestObj i) \<and>
         map_of (entries c') = (map_of (entries c))(objKey x \<mapsto> i\<lparr>assumed := Some x\<rparr>)"
  by (auto simp: AssumeCache_Assume_def Let_def update_conv' split: option.splits if_splits)

lemma map_of_Restore:
  "map_of (entries (AssumeCache_Restore c key)) key =
     map_option (\<lambda>i. i\<lparr>assumed := None\<rparr>) (map_of (entries c) key)"
  by (auto simp: AssumeCache_Restore_def update_conv' split: option.splits)

text \<open>An object the ordering accepts as newer than the best-known version is assumed.\<close>

lemma Assume_succeeds:
  "AssumeCache_Get c (objKey x) = Inr y \<Longrightarrow> newer c x y \<Longrightarrow> \<exists>c'. AssumeCache_Assume c x = Inr c'"
  by (auto simp: AssumeCache_Assume_def AssumeCache_Get_def Let_def split: option.splits)

text \<open>A stale object is rejected, and the cache is then left as it was (no new cache).\<close>

lemma Assume_stale:
  "AssumeCache_Get c (objKey x) = Inr y \<Longrightarrow> \<not> newer c x y \<Longrightarrow>
     AssumeCache_Assume c x = Inl (OutOfSync (objKey x))"
  by (auto simp: AssumeCache_Assume_def AssumeCache_Get_def Let_def split: option.splits)

section \<open>The getters\<close>

lemma Get_cases:
  "claimTracker_Get c ns nm =
     (case map_of (entries (cache c)) (ns @ ''/'' @ nm) of
        None \<Rightarrow> Inl (NotFound (ns @ ''/'' @ nm))
      | Some i \<Rightarrow> assertClaim (latestObj i) ns nm)"
  by (simp add: claimTracker_Get_def AssumeCache_Get_def split: option.splits)

lemma GetOriginal_cases:
  "claimTracker_GetOriginal c ns nm =
     (case map_of (entries (cache c)) (ns @ ''/'' @ nm) of
        None \<Rightarrow> Inl (NotFound (ns @ ''/'' @ nm))
      | Some i \<Rightarrow> assertClaim (authoritative i) ns nm)"
  by (simp add: claimTracker_GetOriginal_def AssumeCache_GetAPIObj_def split: option.splits)

lemma assertClaim_Inr: "assertClaim x ns nm = Inr claim \<longleftrightarrow> x = ClaimObj claim"
  by (simp add: assertClaim_def split: obj.splits)

lemma assertClaim_NotFound: "assertClaim x ns nm \<noteq> Inl (NotFound k)"
  by (simp add: assertClaim_def split: obj.splits)

lemma assertClaim_Unexpected:
  "assertClaim x ns nm = Inl (UnexpectedType kind ns' nm') \<longleftrightarrow>
     (\<exists>k. x = OtherObj kind k) \<and> ns' = ns \<and> nm' = nm"
  by (auto simp: assertClaim_def split: obj.splits)

lemma assertClaim_other:
  "assertClaim x ns nm \<noteq> Inl (OutOfSync k)"
  "assertClaim x ns nm \<noteq> Inl (PanicInterfaceConversion k)"
  by (simp_all add: assertClaim_def split: obj.splits)

lemma latestObj_eq:
  "latestObj i = x \<longleftrightarrow> assumed i = Some x \<or> assumed i = None \<and> authoritative i = x"
  by (auto simp: latestObj_def split: option.splits)

section \<open>Example evaluations\<close>

lemma List_cacheX: "claimTracker_List (NewClaimTracker cacheX) = Inr [claimX]"
  by (simp add: claimTracker_List_def NewClaimTracker_def cacheX_def AssumeCache_List_def
      latestObj_def)

lemma List_cacheX_signalled:
  "claimTracker_List (SignalClaimPendingAllocation (NewClaimTracker cacheX) ''u1'' (Some claimX'))
     = Inr [claimX]"
  by (simp add: List_Signal List_cacheX)

lemma ListAllAllocated_cacheX: "ListAllAllocated (NewClaimTracker cacheX) = Inr []"
  by (simp add: ListAllAllocated_def claimTracker_List_def NewClaimTracker_def cacheX_def
      AssumeCache_List_def latestObj_def claimX_def)

lemma Assume_cacheX:
  "AssumeClaimAfterApiCall (NewClaimTracker cacheX) claimX' = Inr (NewClaimTracker cacheAssumedX)"
  by (simp add: AssumeClaimAfterApiCall_def AssumeCache_Assume_def NewClaimTracker_def cacheX_def
      cacheAssumedX_def claimX'_def claimX_def latestObj_def allocatedIsNewer_def)

lemma GetOriginal_cacheX:
  "claimTracker_GetOriginal (NewClaimTracker cacheX) ''default'' ''x'' = Inr claimX"
  by (simp add: claimTracker_GetOriginal_def AssumeCache_GetAPIObj_def NewClaimTracker_def
      cacheX_def assertClaim_def)

section \<open>ListAllAllocated\<close>

text \<open>
  Claim C1, as amended. In a state whose ledger holds claims only (no value of another
  type and no nil pointer), \<^verbatim>\<open>ListAllAllocated\<close>
  succeeds and reports exactly the effective versions, with a non-empty allocation
  record, of the claims of \<^verbatim>\<open>List()\<close>: the ledger's claim for the listed claim's UID when
  the ledger has one, and the listed claim itself otherwise. So it never reports a claim for
  which neither the ledger nor the cache records an allocation, and it reports a cached
  claim whose ledger entry has an allocation while its cached version has none. A claim that
  only the ledger knows is not among the reported ones.
\<close>

theorem ListAllAllocated_reports:
  assumes "ledger_claims c" and "claimTracker_List c = Inr listed"
  shows "\<exists>res. ListAllAllocated c = Inr res \<and>
    (\<forall>claim. claim \<in> set res \<longleftrightarrow>
       Allocation (Status claim) \<noteq> None \<and>
       (\<exists>orig \<in> set listed.
          inFlightAllocations c (UID orig) = None \<and> claim = orig \<or>
          inFlightAllocations c (UID orig) = Some (ClaimPtr (Some claim)))) \<and>
    (\<forall>claim \<in> set res.
       Allocation (Status claim) \<noteq> None \<and>
       (claim \<in> set listed \<or> (\<exists>claimUid. inFlightAllocations c claimUid = Some (ClaimPtr (Some claim)))))"
proof -
  let ?m = "inFlightAllocations c"
  let ?res = "spec_ListAllAllocated ?m listed"
  have inv: "\<forall>x \<in> ran ?m. isStoredClaim x" using assms(1) by (simp add: ledger_claims_def)
  have r: "ListAllAllocated c = Inr ?res" using assms by (rule ListAllAllocated_spec)
  have m: "claim \<in> set ?res \<longleftrightarrow>
       Allocation (Status claim) \<noteq> None \<and>
       (\<exists>orig \<in> set listed.
          ?m (UID orig) = None \<and> claim = orig \<or> ?m (UID orig) = Some (ClaimPtr (Some claim)))"
    for claim
    unfolding spec_member using spec_effective_eq [OF inv] by simp
  have "Allocation (Status claim) \<noteq> None \<and>
       (claim \<in> set listed \<or> (\<exists>claimUid. ?m claimUid = Some (ClaimPtr (Some claim))))"
    if "claim \<in> set ?res" for claim
    using that unfolding m by blast
  with r m show ?thesis by blast
qed

theorem ListAllAllocated_reports_witness:
  "ledger_claims (SignalClaimPendingAllocation (NewClaimTracker cacheX) ''u1'' (Some claimX')) \<and>
   claimTracker_List (SignalClaimPendingAllocation (NewClaimTracker cacheX) ''u1'' (Some claimX'))
     = Inr [claimX] \<and>
   Allocation (Status claimX) = None \<and>
   (\<exists>res. ListAllAllocated (SignalClaimPendingAllocation (NewClaimTracker cacheX) ''u1'' (Some claimX'))
      = Inr res \<and> claimX' \<in> set res \<and> claimX \<notin> set res)"
proof -
  let ?c = "SignalClaimPendingAllocation (NewClaimTracker cacheX) ''u1'' (Some claimX')"
  have h1: "ledger_claims ?c" by (intro ledger_claims_Signal ledger_claims_New)
  have h2: "claimTracker_List ?c = Inr [claimX]" by (rule List_cacheX_signalled)
  have a: "Allocation (Status claimX) = None" "Allocation (Status claimX') \<noteq> None"
    by (simp_all add: claimX_def claimX'_def)
  have l: "inFlightAllocations ?c (UID claimX) = Some (ClaimPtr (Some claimX'))"
    by (simp add: SignalClaimPendingAllocation_def claimX_def)
  from ListAllAllocated_reports [OF h1 h2] obtain res where
    r: "ListAllAllocated ?c = Inr res" and
    m: "\<And>claim. claim \<in> set res \<longleftrightarrow>
       Allocation (Status claim) \<noteq> None \<and>
       (\<exists>orig \<in> set [claimX].
          inFlightAllocations ?c (UID orig) = None \<and> claim = orig \<or>
          inFlightAllocations ?c (UID orig) = Some (ClaimPtr (Some claim)))"
    by blast
  have "claimX' \<in> set res" unfolding m using a l by simp
  moreover have "claimX \<notin> set res" unfolding m using a by simp
  ultimately show ?thesis using h1 h2 a r by blast
qed

text \<open>
  Claim C1 as stated fails: with an empty cache and a ledger entry for \<open>u1\<close> that carries an
  allocation, \<^verbatim>\<open>ListAllAllocated\<close> returns the empty list.
\<close>

theorem ListAllAllocated_ledger_only_counterexample:
  "inFlightAllocations
     (SignalClaimPendingAllocation (NewClaimTracker emptyCache) ''u1'' (Some claimX')) ''u1''
     = Some (ClaimPtr (Some claimX')) \<and>
   Allocation (Status claimX') \<noteq> None \<and>
   ListAllAllocated (SignalClaimPendingAllocation (NewClaimTracker emptyCache) ''u1'' (Some claimX'))
     = Inr []"
  by (simp add: ListAllAllocated_def claimTracker_List_def AssumeCache_List_def
      SignalClaimPendingAllocation_def NewClaimTracker_def emptyCache_def claimX'_def)



text \<open>
  Claim C3, as amended. For a claim \<open>c\<close> with a non-empty allocation record and a UID \<open>uid\<close>
  that some claim of \<^verbatim>\<open>List()\<close> has, in a state whose ledger holds claims only: after
  \<^verbatim>\<open>SignalClaimPendingAllocation(uid, c)\<close> the claim \<open>c\<close> is in the result of
  \<^verbatim>\<open>ListAllAllocated\<close>, whether or not the cached version has an allocation record.
\<close>

theorem Signal_reported_for_cached_uid:
  assumes "ledger_claims c" and "claimTracker_List c = Inr listed"
    and "orig \<in> set listed" and "UID orig = claimUid"
    and "Allocation (Status allocatedClaim) \<noteq> None"
  shows "\<exists>res. ListAllAllocated (SignalClaimPendingAllocation c claimUid (Some allocatedClaim)) = Inr res \<and>
           allocatedClaim \<in> set res"
proof -
  let ?c = "SignalClaimPendingAllocation c claimUid (Some allocatedClaim)"
  have inv: "ledger_claims ?c" using assms(1) by (rule ledger_claims_Signal)
  have l: "claimTracker_List ?c = Inr listed" using assms(2) by (simp add: List_Signal)
  have e: "spec_effective (inFlightAllocations ?c) orig = allocatedClaim"
    using assms(4) by (simp add: spec_effective_def SignalClaimPendingAllocation_def)
  have "allocatedClaim \<in> set (spec_ListAllAllocated (inFlightAllocations ?c) listed)"
    unfolding spec_member using assms(3,5) e by metis
  with ListAllAllocated_spec [OF inv l] show ?thesis by simp
qed

theorem Signal_reported_for_cached_uid_witness:
  "ledger_claims (NewClaimTracker cacheX) \<and>
   claimTracker_List (NewClaimTracker cacheX) = Inr [claimX] \<and>
   UID claimX = ''u1'' \<and> Allocation (Status claimX) = None \<and>
   Allocation (Status claimX') \<noteq> None \<and>
   (\<exists>res. ListAllAllocated (SignalClaimPendingAllocation (NewClaimTracker cacheX) ''u1'' (Some claimX'))
      = Inr res \<and> claimX' \<in> set res)"
proof -
  have h1: "ledger_claims (NewClaimTracker cacheX)" by (rule ledger_claims_New)
  have h3: "claimX \<in> set [claimX]" by simp
  have h4: "UID claimX = ''u1''" by (simp add: claimX_def)
  have h5: "Allocation (Status claimX') \<noteq> None" by (simp add: claimX'_def)
  have a: "Allocation (Status claimX) = None" by (simp add: claimX_def)
  from Signal_reported_for_cached_uid [OF h1 List_cacheX h3 h4 h5] h1 List_cacheX h4 h5 a
  show ?thesis by blast
qed

text \<open>
  Claim C3 as stated fails: the cache holds, under the key of \<open>X'\<close>, an unallocated claim
  with another UID; after \<^verbatim>\<open>SignalClaimPendingAllocation(u1, X')\<close> the result of
  \<^verbatim>\<open>ListAllAllocated\<close> is empty.
\<close>

theorem Signal_not_reported_counterexample:
  "Allocation (Status claimX') \<noteq> None \<and>
   claimTracker_Get (NewClaimTracker cacheOld) (Namespace claimX') (Name claimX') = Inr claimOld \<and>
   Allocation (Status claimOld) = None \<and>
   ListAllAllocated (SignalClaimPendingAllocation (NewClaimTracker cacheOld) ''u1'' (Some claimX'))
     = Inr []"
  by (simp add: ListAllAllocated_def claimTracker_List_def AssumeCache_List_def
      claimTracker_Get_def AssumeCache_Get_def assertClaim_def latestObj_def
      SignalClaimPendingAllocation_def NewClaimTracker_def cacheOld_def claimX'_def claimOld_def)

text \<open>
  Claim C9. Every claim in the result of \<^verbatim>\<open>ListAllAllocated\<close> is the effective version of a
  claim of \<^verbatim>\<open>List()\<close>: that claim itself when the ledger has no entry for its UID, and the
  ledger's claim for its UID otherwise. A ledger entry under a UID that no listed claim has
  does not change the result, whatever it holds.
\<close>

theorem ListAllAllocated_only_cached:
  assumes "claimTracker_List c = Inr listed"
  shows "(\<forall>res. ListAllAllocated c = Inr res \<longrightarrow>
           (\<forall>claim \<in> set res. \<exists>orig \<in> set listed.
              inFlightAllocations c (UID orig) = None \<and> claim = orig \<or>
              inFlightAllocations c (UID orig) = Some (ClaimPtr (Some claim)))) \<and>
         (\<forall>claimUid x. claimUid \<notin> UID ` set listed \<longrightarrow>
            ListAllAllocated (c\<lparr>inFlightAllocations := (inFlightAllocations c)(claimUid := x)\<rparr>)
              = ListAllAllocated c)"
proof (intro conjI allI impI ballI)
  fix res claim
  assume "ListAllAllocated c = Inr res" "claim \<in> set res"
  then show "\<exists>orig \<in> set listed.
              inFlightAllocations c (UID orig) = None \<and> claim = orig \<or>
              inFlightAllocations c (UID orig) = Some (ClaimPtr (Some claim))"
    using assms loop_origin [of "inFlightAllocations c" listed "[]" res claim]
    by (auto simp: ListAllAllocated_def)
next
  fix claimUid x
  assume "claimUid \<notin> UID ` set listed"
  then show "ListAllAllocated (c\<lparr>inFlightAllocations := (inFlightAllocations c)(claimUid := x)\<rparr>)
              = ListAllAllocated c"
    using assms by (simp add: ListAllAllocated_def claimTracker_List_def loop_other_uid)
qed

theorem ListAllAllocated_only_cached_witness:
  "claimTracker_List (NewClaimTracker cacheX) = Inr [claimX] \<and>
   ''u9'' \<notin> UID ` set [claimX] \<and>
   Allocation (Status claimX') \<noteq> None \<and>
   ListAllAllocated (SignalClaimPendingAllocation (NewClaimTracker cacheX) ''u9'' (Some claimX'))
     = ListAllAllocated (NewClaimTracker cacheX) \<and>
   ListAllAllocated (NewClaimTracker cacheX) = Inr []"
proof -
  have u: "''u9'' \<notin> UID ` set [claimX]" by (simp add: claimX_def)
  have a: "Allocation (Status claimX') \<noteq> None" by (simp add: claimX'_def)
  from ListAllAllocated_only_cached [OF List_cacheX] u
  have "ListAllAllocated (SignalClaimPendingAllocation (NewClaimTracker cacheX) ''u9'' (Some claimX'))
     = ListAllAllocated (NewClaimTracker cacheX)"
    unfolding SignalClaimPendingAllocation_def by blast
  with List_cacheX u a ListAllAllocated_cacheX show ?thesis by simp
qed



section \<open>The cache behind the tracker\<close>

text \<open>
  Claim C4. When \<^verbatim>\<open>GetOriginal\<close> returns the authoritative claim \<open>A\<close> for a namespace and
  name, and \<^verbatim>\<open>AssumeClaimAfterApiCall(B)\<close> succeeds for a claim \<open>B\<close> of that namespace and
  name, then \<^verbatim>\<open>Get\<close> returns \<open>B\<close> while \<^verbatim>\<open>GetOriginal\<close> still returns \<open>A\<close>, and after
  \<^verbatim>\<open>AssumedClaimRestore\<close> \<^verbatim>\<open>Get\<close> returns \<open>A\<close> again.
\<close>

theorem Assume_Restore_round_trip:
  assumes orig: "claimTracker_GetOriginal c namespace claimName = Inr A"
    and key: "Namespace B = namespace" "Name B = claimName"
    and ok: "AssumeClaimAfterApiCall c B = Inr c'"
  shows "claimTracker_Get c' namespace claimName = Inr B \<and>
         claimTracker_GetOriginal c' namespace claimName = Inr A \<and>
         claimTracker_Get (AssumedClaimRestore c' namespace claimName) namespace claimName
           = Inr A \<and>
         claimTracker_GetOriginal (AssumedClaimRestore c' namespace claimName) namespace claimName
           = Inr A \<and>
         inFlightAllocations c' = inFlightAllocations c"
proof -
  let ?k = "namespace @ ''/'' @ claimName"
  from ok obtain cache' where a: "AssumeCache_Assume (cache c) (ClaimObj B) = Inr cache'"
    and c': "c' = c\<lparr>cache := cache'\<rparr>"
    by (auto simp: AssumeClaimAfterApiCall_def split: sum.splits)
  from map_of_Assume [OF a] key obtain i where
    i: "map_of (entries (cache c)) ?k = Some i"
    and m: "map_of (entries cache')
      = (map_of (entries (cache c)))(?k \<mapsto> i\<lparr>assumed := Some (ClaimObj B)\<rparr>)"
    by auto
  from orig i have auth: "authoritative i = ClaimObj A"
    by (simp add: claimTracker_GetOriginal_def AssumeCache_GetAPIObj_def assertClaim_def
        split: obj.splits)
  have g: "claimTracker_Get c' namespace claimName = Inr B"
    by (simp add: c' m claimTracker_Get_def AssumeCache_Get_def latestObj_def assertClaim_def)
  have o: "claimTracker_GetOriginal c' namespace claimName = Inr A"
    by (simp add: c' m auth claimTracker_GetOriginal_def AssumeCache_GetAPIObj_def
        assertClaim_def)
  have r: "map_of (entries (cache (AssumedClaimRestore c' namespace claimName))) ?k
      = Some (i\<lparr>assumed := None\<rparr>)"
    by (simp add: AssumedClaimRestore_def map_of_Restore c' m)
  have g': "claimTracker_Get (AssumedClaimRestore c' namespace claimName) namespace claimName
      = Inr A"
    using r
    by (simp add: auth claimTracker_Get_def AssumeCache_Get_def latestObj_def assertClaim_def)
  have o': "claimTracker_GetOriginal (AssumedClaimRestore c' namespace claimName)
      namespace claimName = Inr A"
    using r
    by (simp add: auth claimTracker_GetOriginal_def AssumeCache_GetAPIObj_def assertClaim_def)
  from g o g' o' c' show ?thesis by simp
qed

theorem Assume_Restore_round_trip_witness:
  "claimTracker_GetOriginal (NewClaimTracker cacheX) ''default'' ''x'' = Inr claimX \<and>
   Namespace claimX' = ''default'' \<and> Name claimX' = ''x'' \<and>
   AssumeClaimAfterApiCall (NewClaimTracker cacheX) claimX' = Inr (NewClaimTracker cacheAssumedX) \<and>
   claimTracker_Get (NewClaimTracker cacheAssumedX) ''default'' ''x'' = Inr claimX' \<and>
   claimTracker_GetOriginal (NewClaimTracker cacheAssumedX) ''default'' ''x'' = Inr claimX \<and>
   claimTracker_Get (AssumedClaimRestore (NewClaimTracker cacheAssumedX) ''default'' ''x'')
     ''default'' ''x'' = Inr claimX \<and>
   claimX \<noteq> claimX'"
proof -
  have k: "Namespace claimX' = ''default''" "Name claimX' = ''x''"
    by (simp_all add: claimX'_def)
  have d: "claimX \<noteq> claimX'" by (simp add: claimX_def claimX'_def)
  from Assume_Restore_round_trip [OF GetOriginal_cacheX k Assume_cacheX]
    GetOriginal_cacheX k Assume_cacheX d
  show ?thesis by simp
qed

text \<open>
  Claim C5. For the key \<open>namespace/name\<close>: \<^verbatim>\<open>Get\<close> returns the assumed version when there is
  one and the authoritative version otherwise; it fails with the not-found error exactly when
  the key is absent from the cache, and with the type-mismatch error, which carries the
  observed kind, exactly when that version is not a claim. \<^verbatim>\<open>GetOriginal\<close> reads the
  authoritative version only and fails under the same two conditions. Neither fails in
  any other way, and the getters of the plugin's \<^verbatim>\<open>ClaimsAssumeCache\<close> return the same.
\<close>

theorem Get_GetOriginal_results:
  assumes "key = namespace @ ''/'' @ claimName"
  shows
   "(claimTracker_Get c namespace claimName = Inl (NotFound key)
       \<longleftrightarrow> map_of (entries (cache c)) key = None) \<and>
    (claimTracker_Get c namespace claimName = Inl (UnexpectedType kind namespace claimName)
       \<longleftrightarrow> (\<exists>i k. map_of (entries (cache c)) key = Some i \<and>
             (assumed i = Some (OtherObj kind k) \<or>
              assumed i = None \<and> authoritative i = OtherObj kind k))) \<and>
    (claimTracker_Get c namespace claimName = Inr claim
       \<longleftrightarrow> (\<exists>i. map_of (entries (cache c)) key = Some i \<and>
             (assumed i = Some (ClaimObj claim) \<or>
              assumed i = None \<and> authoritative i = ClaimObj claim))) \<and>
    (claimTracker_GetOriginal c namespace claimName = Inl (NotFound key)
       \<longleftrightarrow> map_of (entries (cache c)) key = None) \<and>
    (claimTracker_GetOriginal c namespace claimName = Inl (UnexpectedType kind namespace claimName)
       \<longleftrightarrow> (\<exists>i k. map_of (entries (cache c)) key = Some i \<and> authoritative i = OtherObj kind k)) \<and>
    (claimTracker_GetOriginal c namespace claimName = Inr claim
       \<longleftrightarrow> (\<exists>i. map_of (entries (cache c)) key = Some i \<and> authoritative i = ClaimObj claim)) \<and>
    (\<forall>k. claimTracker_Get c namespace claimName \<noteq> Inl (OutOfSync k) \<and>
         claimTracker_Get c namespace claimName \<noteq> Inl (PanicInterfaceConversion k) \<and>
         claimTracker_GetOriginal c namespace claimName \<noteq> Inl (OutOfSync k) \<and>
         claimTracker_GetOriginal c namespace claimName \<noteq> Inl (PanicInterfaceConversion k)) \<and>
    ClaimsAssumeCache_Get (ClaimsAssumeCache (cache c)) namespace claimName
       = claimTracker_Get c namespace claimName \<and>
    ClaimsAssumeCache_GetOriginal (ClaimsAssumeCache (cache c)) namespace claimName
       = claimTracker_GetOriginal c namespace claimName"
proof (intro conjI allI)
  show "claimTracker_Get c namespace claimName = Inl (NotFound key)
       \<longleftrightarrow> map_of (entries (cache c)) key = None"
    unfolding Get_cases assms by (simp add: assertClaim_NotFound split: option.splits)
  show "claimTracker_Get c namespace claimName = Inl (UnexpectedType kind namespace claimName)
       \<longleftrightarrow> (\<exists>i k. map_of (entries (cache c)) key = Some i \<and>
             (assumed i = Some (OtherObj kind k) \<or>
              assumed i = None \<and> authoritative i = OtherObj kind k))"
    unfolding Get_cases assms
    by (auto simp: assertClaim_Unexpected latestObj_eq split: option.splits)
  show "claimTracker_Get c namespace claimName = Inr claim
       \<longleftrightarrow> (\<exists>i. map_of (entries (cache c)) key = Some i \<and>
             (assumed i = Some (ClaimObj claim) \<or>
              assumed i = None \<and> authoritative i = ClaimObj claim))"
    unfolding Get_cases assms
    by (auto simp: assertClaim_Inr latestObj_eq split: option.splits)
  show "claimTracker_GetOriginal c namespace claimName = Inl (NotFound key)
       \<longleftrightarrow> map_of (entries (cache c)) key = None"
    unfolding GetOriginal_cases assms by (simp add: assertClaim_NotFound split: option.splits)
  show "claimTracker_GetOriginal c namespace claimName
         = Inl (UnexpectedType kind namespace claimName)
       \<longleftrightarrow> (\<exists>i k. map_of (entries (cache c)) key = Some i \<and> authoritative i = OtherObj kind k)"
    unfolding GetOriginal_cases assms
    by (auto simp: assertClaim_Unexpected split: option.splits)
  show "claimTracker_GetOriginal c namespace claimName = Inr claim
       \<longleftrightarrow> (\<exists>i. map_of (entries (cache c)) key = Some i \<and> authoritative i = ClaimObj claim)"
    unfolding GetOriginal_cases assms
    by (auto simp: assertClaim_Inr split: option.splits)
  show "ClaimsAssumeCache_Get (ClaimsAssumeCache (cache c)) namespace claimName
       = claimTracker_Get c namespace claimName"
    by (simp add: ClaimsAssumeCache_Get_def claimTracker_Get_def)
  show "ClaimsAssumeCache_GetOriginal (ClaimsAssumeCache (cache c)) namespace claimName
       = claimTracker_GetOriginal c namespace claimName"
    by (simp add: ClaimsAssumeCache_GetOriginal_def claimTracker_GetOriginal_def)
  fix k
  show "claimTracker_Get c namespace claimName \<noteq> Inl (OutOfSync k)"
    "claimTracker_Get c namespace claimName \<noteq> Inl (PanicInterfaceConversion k)"
    unfolding Get_cases by (simp_all add: assertClaim_other split: option.splits)
  show "claimTracker_GetOriginal c namespace claimName \<noteq> Inl (OutOfSync k)"
    "claimTracker_GetOriginal c namespace claimName \<noteq> Inl (PanicInterfaceConversion k)"
    unfolding GetOriginal_cases by (simp_all add: assertClaim_other split: option.splits)
qed

theorem Get_GetOriginal_results_witness:
  "''default/x'' = ''default'' @ ''/'' @ ''x'' \<and>
   claimTracker_Get (NewClaimTracker cacheAssumedX) ''default'' ''x'' = Inr claimX' \<and>
   claimTracker_GetOriginal (NewClaimTracker cacheAssumedX) ''default'' ''x'' = Inr claimX \<and>
   ''kube-system/p'' = ''kube-system'' @ ''/'' @ ''p'' \<and>
   claimTracker_Get (NewClaimTracker cacheAssumedX) ''kube-system'' ''p''
     = Inl (UnexpectedType ''*v1.Pod'' ''kube-system'' ''p'') \<and>
   ''default/y'' = ''default'' @ ''/'' @ ''y'' \<and>
   claimTracker_Get (NewClaimTracker cacheAssumedX) ''default'' ''y''
     = Inl (NotFound ''default/y'')"
proof -
  let ?c = "NewClaimTracker cacheAssumedX"
  have kx: "''default/x'' = ''default'' @ ''/'' @ ''x''" by simp
  have kp: "''kube-system/p'' = ''kube-system'' @ ''/'' @ ''p''" by simp
  have ky: "''default/y'' = ''default'' @ ''/'' @ ''y''" by simp
  have mx: "map_of (entries (cache ?c)) ''default/x''
      = Some \<lparr>authoritative = ClaimObj claimX, assumed = Some (ClaimObj claimX')\<rparr>"
    by (simp add: NewClaimTracker_def cacheAssumedX_def)
  have mp: "map_of (entries (cache ?c)) ''kube-system/p''
      = Some \<lparr>authoritative = OtherObj ''*v1.Pod'' ''kube-system/p'', assumed = None\<rparr>"
    by (simp add: NewClaimTracker_def cacheAssumedX_def)
  have my: "map_of (entries (cache ?c)) ''default/y'' = None"
    by (simp add: NewClaimTracker_def cacheAssumedX_def)
  have 1: "claimTracker_Get ?c ''default'' ''x'' = Inr claimX'"
    using Get_GetOriginal_results [OF kx, of ?c "[]" claimX'] mx by simp
  have 2: "claimTracker_GetOriginal ?c ''default'' ''x'' = Inr claimX"
    using Get_GetOriginal_results [OF kx, of ?c "[]" claimX] mx by simp
  have 3: "claimTracker_Get ?c ''kube-system'' ''p''
     = Inl (UnexpectedType ''*v1.Pod'' ''kube-system'' ''p'')"
    using Get_GetOriginal_results [OF kp, of ?c "''*v1.Pod''" claimX] mp by simp
  have 4: "claimTracker_Get ?c ''default'' ''y'' = Inl (NotFound ''default/y'')"
    using Get_GetOriginal_results [OF ky, of ?c "[]" claimX] my by simp
  from kx kp ky 1 2 3 4 show ?thesis by blast
qed

text \<open>
  Claim C6. \<^verbatim>\<open>List\<close> never returns an error. The objects of the cache that are not claims are
  skipped, and the result holds exactly the claims among the cached objects, in their
  order: every claim that the cache's \<^verbatim>\<open>Get\<close> returns for some key is listed and, with one
  entry per key, every listed claim is what the cache's \<^verbatim>\<open>Get\<close> returns for some key. The
  plugin's \<^verbatim>\<open>ClaimsAssumeCache.List\<close> returns the same.
\<close>

theorem List_skips_other_kinds:
  "\<exists>claims. claimTracker_List c = Inr claims \<and>
     ClaimsAssumeCache_List (ClaimsAssumeCache (cache c)) = Inr claims \<and>
     map ClaimObj claims = filter isClaim (AssumeCache_List (cache c) None) \<and>
     (\<forall>claim key. AssumeCache_Get (cache c) key = Inr (ClaimObj claim) \<longrightarrow> claim \<in> set claims) \<and>
     (distinct (map fst (entries (cache c))) \<longrightarrow>
        (\<forall>claim \<in> set claims. \<exists>key. AssumeCache_Get (cache c) key = Inr (ClaimObj claim)))"
proof -
  let ?objs = "AssumeCache_List (cache c) None"
  let ?claims = "List_loop ?objs []"
  have 1: "claimTracker_List c = Inr ?claims" by (simp add: claimTracker_List_def)
  have 2: "ClaimsAssumeCache_List (ClaimsAssumeCache (cache c)) = Inr ?claims"
    by (simp add: ClaimsAssumeCache_List_def)
  have 3: "map ClaimObj ?claims = filter isClaim ?objs" by (rule List_loop_filter)
  have 4: "claim \<in> set ?claims"
    if "AssumeCache_Get (cache c) key = Inr (ClaimObj claim)" for claim key
    using Get_in_List [OF that] by (simp add: set_List_loop)
  have 5: "\<exists>key. AssumeCache_Get (cache c) key = Inr (ClaimObj claim)"
    if "distinct (map fst (entries (cache c)))" "claim \<in> set ?claims" for claim
    using List_in_Get [OF that(1), of "ClaimObj claim"] that(2) by (simp add: set_List_loop)
  from 1 2 3 4 5 show ?thesis by blast
qed

theorem List_skips_other_kinds_witness:
  "claimTracker_List (NewClaimTracker cacheX) = Inr [claimX] \<and>
   AssumeCache_List (cache (NewClaimTracker cacheX)) None
     = [ClaimObj claimX, OtherObj ''*v1.Pod'' ''kube-system/p''] \<and>
   distinct (map fst (entries (cache (NewClaimTracker cacheX)))) \<and>
   AssumeCache_Get (cache (NewClaimTracker cacheX)) ''default/x'' = Inr (ClaimObj claimX) \<and>
   (\<exists>key. AssumeCache_Get (cache (NewClaimTracker cacheX)) key = Inr (ClaimObj claimX))"
proof -
  have d: "distinct (map fst (entries (cache (NewClaimTracker cacheX))))"
    by (simp add: NewClaimTracker_def cacheX_def)
  have l: "AssumeCache_List (cache (NewClaimTracker cacheX)) None
     = [ClaimObj claimX, OtherObj ''*v1.Pod'' ''kube-system/p'']"
    by (simp add: NewClaimTracker_def cacheX_def AssumeCache_List_def latestObj_def)
  have g: "AssumeCache_Get (cache (NewClaimTracker cacheX)) ''default/x'' = Inr (ClaimObj claimX)"
    by (simp add: NewClaimTracker_def cacheX_def AssumeCache_Get_def latestObj_def)
  from List_skips_other_kinds [of "NewClaimTracker cacheX"] List_cacheX d
  have "\<exists>key. AssumeCache_Get (cache (NewClaimTracker cacheX)) key = Inr (ClaimObj claimX)"
    by auto
  with List_cacheX d l g show ?thesis by simp
qed

section \<open>The in-flight ledger\<close>

text \<open>
  Claim C7. \<^verbatim>\<open>RemoveClaimPendingAllocation(uid)\<close> removes the ledger entry of \<open>uid\<close> and
  returns \<open>found = true\<close> exactly when there was one; afterwards
  \<^verbatim>\<open>ClaimHasPendingAllocation(uid)\<close> is false, and a second removal returns \<open>found = false\<close>
  and changes nothing.
\<close>

theorem RemoveClaimPendingAllocation_clears:
  "RemoveClaimPendingAllocation c claimUid = (found, c') \<Longrightarrow>
     found = (inFlightAllocations c claimUid \<noteq> None) \<and>
     inFlightAllocations c' = (inFlightAllocations c)(claimUid := None) \<and>
     cache c' = cache c \<and>
     \<not> ClaimHasPendingAllocation c' claimUid \<and>
     RemoveClaimPendingAllocation c' claimUid = (False, c')"
  by (auto simp: RemoveClaimPendingAllocation_def ClaimHasPendingAllocation_def
      split: option.splits)

theorem RemoveClaimPendingAllocation_clears_witness:
  "RemoveClaimPendingAllocation
     (SignalClaimPendingAllocation (NewClaimTracker cacheX) ''u1'' (Some claimX')) ''u1''
     = (True, NewClaimTracker cacheX) \<and>
   \<not> ClaimHasPendingAllocation (NewClaimTracker cacheX) ''u1'' \<and>
   RemoveClaimPendingAllocation (NewClaimTracker cacheX) ''u1'' = (False, NewClaimTracker cacheX)"
proof -
  have h: "RemoveClaimPendingAllocation
      (SignalClaimPendingAllocation (NewClaimTracker cacheX) ''u1'' (Some claimX')) ''u1''
     = (True, NewClaimTracker cacheX)"
    by (simp add: RemoveClaimPendingAllocation_def SignalClaimPendingAllocation_def
        NewClaimTracker_def)
  from RemoveClaimPendingAllocation_clears [OF h] h show ?thesis by simp
qed

text \<open>
  Claim C8. \<^verbatim>\<open>SignalClaimPendingAllocation(uid, c1)\<close> always succeeds and makes
  \<^verbatim>\<open>ClaimHasPendingAllocation(uid)\<close> true; a second call with \<open>c2\<close> overwrites the entry,
  so that the ledger's value for \<open>uid\<close> is \<open>c2\<close>, as if \<open>c1\<close> had never been signalled.
\<close>

theorem SignalClaimPendingAllocation_last_write_wins:
  "ClaimHasPendingAllocation (SignalClaimPendingAllocation c claimUid c1) claimUid \<and>
   inFlightAllocations (SignalClaimPendingAllocation c claimUid c1) claimUid = Some (ClaimPtr c1) \<and>
   cache (SignalClaimPendingAllocation c claimUid c1) = cache c \<and>
   inFlightAllocations
     (SignalClaimPendingAllocation (SignalClaimPendingAllocation c claimUid c1) claimUid c2) claimUid
     = Some (ClaimPtr c2) \<and>
   SignalClaimPendingAllocation (SignalClaimPendingAllocation c claimUid c1) claimUid c2
     = SignalClaimPendingAllocation c claimUid c2"
  by (simp add: SignalClaimPendingAllocation_def ClaimHasPendingAllocation_def)

theorem SignalClaimPendingAllocation_last_write_wins_witness:
  "ClaimHasPendingAllocation
     (SignalClaimPendingAllocation (NewClaimTracker cacheX) ''u1'' (Some claimX)) ''u1'' \<and>
   inFlightAllocations
     (SignalClaimPendingAllocation
        (SignalClaimPendingAllocation (NewClaimTracker cacheX) ''u1'' (Some claimX)) ''u1''
        (Some claimX'))
     ''u1'' = Some (ClaimPtr (Some claimX'))"
  using SignalClaimPendingAllocation_last_write_wins
    [of "NewClaimTracker cacheX" "''u1''" "Some claimX" "Some claimX'"]
  by blast

end
